theory Spec2Isabelle
  imports Main "HOL-Library.AList"
begin

section \<open>Python values, exceptions and awaited calls\<close>

text \<open>
  A Python \<open>str\<close> is modelled as a \<open>string\<close> whose characters are the code points
  below 256. The values that travel in gateway envelopes are JSON-like; a dictionary is an
  association list in insertion order, with string keys as JSON objects have them, each
  key at most once.
\<close>

datatype pyval =
    PNone
  | PBool bool
  | PInt int
  | PStr string
  | PList "pyval list"
  | PDict "(string \<times> pyval) list"

text \<open>The arguments of a call \<open>func(*args, **kwargs)\<close>: positional and keyword.\<close>

type_synonym arguments = "pyval list \<times> (string \<times> pyval) list"

datatype exn =
    KeyError string
  | AttributeError string
  | ValueError
  | TypeError
  | OtherError string

text \<open>
  What \<open>await coro\<close> does to the awaiting coroutine: the awaited coroutine returns a
  value, raises, or never completes (\<open>Stalled\<close>), and then the awaiting one never resumes.
\<close>

datatype 'r outcome = Returned 'r | Raised exn | Stalled

section \<open>\<open>str.lower\<close> and the identifier pattern\<close>

text \<open>
  \<open>str.lower()\<close> on code points below 256: the letters \<open>A\<close> to \<open>Z\<close> and the Latin-1
  capitals \<open>0xC0\<close> to \<open>0xDE\<close> (without the multiplication sign \<open>0xD7\<close>) move up by 32.
\<close>

definition lower_char :: "char \<Rightarrow> char" where
  "lower_char c =
     (let n = (of_char c :: nat)
      in if (65 \<le> n \<and> n \<le> 90) \<or> (192 \<le> n \<and> n \<le> 222 \<and> n \<noteq> 215)
         then char_of (n + 32) else c)"

definition lower :: "string \<Rightarrow> string" where
  "lower s = map lower_char s"

text \<open>
  Two names are case variants of each other when they have the same length and, position
  by position, the characters are equal or one is the lower-case form of the other.
\<close>

definition case_variant_char :: "char \<Rightarrow> char \<Rightarrow> bool" where
  "case_variant_char a b = (a = b \<or> lower_char a = b \<or> a = lower_char b)"

definition case_variant :: "string \<Rightarrow> string \<Rightarrow> bool" where
  "case_variant s t = list_all2 case_variant_char s t"

text \<open>
  The character class \<open>[0-9A-HJ-KM-NP-TV-Z]\<close> of \<open>Client.get_user\<close>, range by range.
\<close>

definition in_range :: "char \<Rightarrow> char \<Rightarrow> char \<Rightarrow> bool" where
  "in_range lo hi c = ((of_char lo :: nat) \<le> of_char c \<and> (of_char c :: nat) \<le> of_char hi)"

definition id_char :: "char \<Rightarrow> bool" where
  "id_char c =
     (in_range CHR ''0'' CHR ''9'' c \<or> in_range CHR ''A'' CHR ''H'' c \<or>
      in_range CHR ''J'' CHR ''K'' c \<or> in_range CHR ''M'' CHR ''N'' c \<or>
      in_range CHR ''P'' CHR ''T'' c \<or> in_range CHR ''V'' CHR ''Z'' c)"

text \<open>The identifier shape: exactly 26 characters of the class.\<close>

definition id_shape :: "string \<Rightarrow> bool" where
  "id_shape s = (length s = 26 \<and> list_all id_char s)"

text \<open>
  \<open>re.search(r"[0-9A-HJ-KM-NP-TV-Z]{26}", user)\<close>: the start positions are tried from
  left to right, and at a position the pattern matches exactly the next 26 characters.
  The result is \<open>match.group(0)\<close> of the first match, or \<open>None\<close>.
\<close>

fun search :: "string \<Rightarrow> string option" where
  "search [] = None"
| "search (c # cs) =
     (if id_shape (take 26 (c # cs)) then Some (take 26 (c # cs)) else search cs)"

section \<open>The client\<close>

text \<open>
  \<open>Client\<close> with the attributes that \<open>listen\<close>, \<open>start\<close>, \<open>dispatch\<close>,
  \<open>raw_dispatch\<close> and \<open>get_user\<close> read or write. A registry holds references to
  function objects, of type \<open>'f\<close>. The attribute \<open>cache\<close> is only annotated in
  \<open>__init__\<close> and is set by \<open>start\<close>: before that it does not exist (\<open>None\<close> here).
\<close>

record ('f, 'c) Client =
  cache_message_limit :: int
  listeners :: "string \<rightharpoonup> 'f"
  raw_listeners :: "string \<rightharpoonup> 'f"
  cache :: "'c option"

text \<open>\<open>Client.__init__(*, cache_message_limit=5000)\<close>; \<open>None\<close> is the omitted keyword.\<close>

definition Client_init :: "int option \<Rightarrow> ('f, 'c) Client" where
  "Client_init limit =
     \<lparr> cache_message_limit = (case limit of None \<Rightarrow> 5000 | Some n \<Rightarrow> n),
       listeners = Map.empty,
       raw_listeners = Map.empty,
       cache = None \<rparr>"

text \<open>
  \<open>client.listen(event, raw=...)(func)\<close>: the decorator stores \<open>func\<close> under the
  lower-cased name, in the raw registry when \<open>raw\<close> is truthy (\<open>raw\<close> is
  \<open>Optional[bool]\<close>, and \<open>None\<close> is falsy), and returns \<open>func\<close>.
\<close>

definition listen ::
  "('f, 'c) Client \<Rightarrow> string \<Rightarrow> bool option \<Rightarrow> 'f \<Rightarrow> 'f \<times> ('f, 'c) Client" where
  "listen self event raw func =
     (if raw = Some True
      then (func, self\<lparr>raw_listeners := (raw_listeners self)(lower event \<mapsto> func)\<rparr>)
      else (func, self\<lparr>listeners := (listeners self)(lower event \<mapsto> func)\<rparr>))"

text \<open>The client after \<open>client.listen(event, raw=raw)(func)\<close>.\<close>

definition registered ::
  "('f, 'c) Client \<Rightarrow> string \<Rightarrow> bool option \<Rightarrow> 'f \<Rightarrow> ('f, 'c) Client" where
  "registered self event raw func = snd (listen self event raw func)"

text \<open>
  Calling a function object: \<open>call func a self\<close> is what awaiting \<open>func(*args, **kwargs)\<close>
  does, to the client (a handler may register listeners itself) and to the awaiting
  coroutine. Handlers are the user's code: \<open>call\<close> is a parameter.
\<close>

type_synonym ('f, 'c) calling =
  "'f \<Rightarrow> arguments \<Rightarrow> ('f, 'c) Client \<Rightarrow> ('f, 'c) Client \<times> pyval outcome"

text \<open>
  A run of \<open>dispatch\<close> or \<open>raw_dispatch\<close>: the calls it made, in order, each with its
  arguments; the client afterwards; and how the coroutine ended (it returns \<open>None\<close>).
\<close>

record ('f, 'c) run =
  invoked :: "('f \<times> arguments) list"
  after :: "('f, 'c) Client"
  ended :: "unit outcome"

definition await_discard :: "pyval outcome \<Rightarrow> unit outcome" where
  "await_discard r = (case r of Returned v \<Rightarrow> Returned () | Raised e \<Rightarrow> Raised e | Stalled \<Rightarrow> Stalled)"

text \<open>
  The truth value of a registered object, which \<open>if func := ...\<close> tests: every function
  and coroutine function is truthy, an instance of a class with \<open>__call__\<close> is falsy
  when its \<open>__bool__\<close> returns \<open>False\<close> or its \<open>__len__\<close> returns 0. Like \<open>call\<close>,
  \<open>truth\<close> belongs to the user's objects and is a parameter.
\<close>

type_synonym 'f truth = "'f \<Rightarrow> bool"

text \<open>
  \<open>Client.dispatch(event, *args, **kwargs)\<close>. \<open>self.listeners.get(event)\<close> is \<open>None\<close>
  for a name that is not registered; the handler is awaited only when what \<open>get\<close>
  returned is truthy, and otherwise \<open>dispatch\<close> returns at once.
\<close>

definition dispatch ::
  "'f truth \<Rightarrow> ('f, 'c) calling \<Rightarrow> ('f, 'c) Client \<Rightarrow> string \<Rightarrow> arguments \<Rightarrow> ('f, 'c) run" where
  "dispatch truth call self event a =
     (let event = lower event
      in case listeners self event of
           None \<Rightarrow> \<lparr> invoked = [], after = self, ended = Returned () \<rparr>
         | Some func \<Rightarrow>
             (if truth func
              then (let (self', r) = call func a self
                    in \<lparr> invoked = [(func, a)], after = self', ended = await_discard r \<rparr>)
              else \<lparr> invoked = [], after = self, ended = Returned () \<rparr>))"

text \<open>
  \<open>Client.raw_dispatch(payload)\<close>: \<open>payload["type"]\<close> raises \<open>KeyError\<close> without the
  key, and \<open>.lower()\<close> raises \<open>AttributeError\<close> on a value that is not a \<open>str\<close>. The
  handler is awaited under the same truth test as in \<open>dispatch\<close>.
\<close>

definition raw_dispatch ::
  "'f truth \<Rightarrow> ('f, 'c) calling \<Rightarrow> ('f, 'c) Client \<Rightarrow> (string \<times> pyval) list \<Rightarrow> ('f, 'c) run" where
  "raw_dispatch truth call self payload =
     (case map_of payload ''type'' of
        None \<Rightarrow> \<lparr> invoked = [], after = self, ended = Raised (KeyError ''type'') \<rparr>
      | Some (PStr t) \<Rightarrow>
          (let event = lower t
           in case raw_listeners self event of
                None \<Rightarrow> \<lparr> invoked = [], after = self, ended = Returned () \<rparr>
              | Some func \<Rightarrow>
                  (if truth func
                   then (let (self', r) = call func ([PDict payload], []) self
                         in \<lparr> invoked = [(func, ([PDict payload], []))], after = self',
                              ended = await_discard r \<rparr>)
                   else \<lparr> invoked = [], after = self, ended = Returned () \<rparr>))
      | Some v \<Rightarrow> \<lparr> invoked = [], after = self, ended = Raised (AttributeError ''lower'') \<rparr>)"

text \<open>
  \<open>Client.get_user(user)\<close>. \<open>CacheHandler.get_user\<close> is the parameter \<open>lookup\<close>: its
  second argument is the attribute name, \<open>None\<close> when the call leaves it out, and it
  returns a user or \<open>None\<close>, or raises. Reading \<open>self.cache\<close> before \<open>start\<close> has set it
  raises \<open>AttributeError\<close>. Only the name lookup is inside the \<open>try\<close>, and only
  \<open>ValueError\<close> is caught.
\<close>

definition get_user ::
  "('c \<Rightarrow> string \<Rightarrow> string option \<Rightarrow> exn + 'u option) \<Rightarrow> ('f, 'c) Client \<Rightarrow> string \<Rightarrow> exn + 'u option" where
  "get_user lookup self user =
     (case search user of
        Some m \<Rightarrow>
          (case cache self of
             None \<Rightarrow> Inl (AttributeError ''cache'')
           | Some c \<Rightarrow> lookup c m None)
      | None \<Rightarrow>
          (case cache self of
             None \<Rightarrow> Inl (AttributeError ''cache'')
           | Some c \<Rightarrow>
               (case lookup c user (Some ''name'') of
                  Inl ValueError \<Rightarrow> Inr None
                | Inl e \<Rightarrow> Inl e
                | Inr u \<Rightarrow> Inr u)))"

section \<open>The cache store\<close>

text \<open>
  Modelled from the spec: the class \<open>User\<close> (\<open>voltage/user.py\<close>) is not among the
  sources. A user has an identifier and a display name.
\<close>

record User =
  user_id :: string
  name :: string

text \<open>
  \<open>MessagePayload\<close> (\<open>types/message.py\<close>): \<open>msg_id\<close> is the key \<open>_id\<close>; of the
  keys that are not required, \<open>content\<close> and \<open>edited\<close> are kept. A cached message is
  represented by its payload.
\<close>

record MessagePayload =
  msg_id :: string
  channel :: string
  author :: string
  content :: "string option"
  edited :: "string option"

text \<open>
  Modelled from the spec: \<open>CacheHandler\<close> (\<open>voltage/internals\<close>) is imported by
  \<open>client.py\<close> and is not among the sources. The store holds one mapping per entity
  kind, here users and messages, each from identifier to entity, kept in insertion order
  as a Python \<open>dict\<close> keeps it; the capacity of the message mapping is fixed when the
  store is constructed.
\<close>

record CacheHandler =
  message_limit :: int
  users :: "(string \<times> User) list"
  messages :: "(string \<times> MessagePayload) list"

text \<open>
  Modelled from the spec: the constructor \<open>CacheHandler(http, loop, message_limit)\<close>, as
  \<open>Client.start\<close> calls it. A store is created empty at session start.
\<close>

definition CacheHandler_init :: "int \<Rightarrow> CacheHandler" where
  "CacheHandler_init limit = \<lparr> message_limit = limit, users = [], messages = [] \<rparr>"

text \<open>
  Modelled from the spec: \<open>put\<close> for the unbounded kind of users (\<open>add_user\<close> in
  \<open>Client.start\<close>) inserts or replaces the entity under its identifier, without eviction.
\<close>

definition put_user :: "CacheHandler \<Rightarrow> User \<Rightarrow> CacheHandler" where
  "put_user c u = c\<lparr>users := AList.update (user_id u) u (users c)\<rparr>"

text \<open>
  Modelled from the spec: \<open>put\<close> for the bounded kind of messages inserts or replaces the
  entity under its identifier (a replaced entity keeps its place, a new one goes last),
  and evicts the oldest entry if the capacity is exceeded after the insertion.
\<close>

definition put_message :: "CacheHandler \<Rightarrow> MessagePayload \<Rightarrow> CacheHandler" where
  "put_message c m =
     (let ms = AList.update (msg_id m) m (messages c)
      in c\<lparr>messages := (if int (length ms) > message_limit c then tl ms else ms)\<rparr>)"

text \<open>
  Modelled from the spec: \<open>get\<close> looks an identifier up and answers with the entity or
  with "not found" (\<open>None\<close>); it reads the store and leaves it as it is.
\<close>

definition get_message :: "CacheHandler \<Rightarrow> string \<Rightarrow> MessagePayload option" where
  "get_message c k = map_of (messages c) k"

text \<open>
  The claim's words about the store, as functions of the identifiers put. \<open>newest C h\<close>
  is the last \<open>C\<close> entries of \<open>h\<close> (none for \<open>C \<le> 0\<close>).
\<close>

definition newest :: "int \<Rightarrow> 'a list \<Rightarrow> 'a list" where
  "newest C h = drop (length h - nat C) h"

text \<open>
  The insertions among a sequence of puts, in order. A put of an identifier that is among
  the newest \<open>C\<close> insertions made so far replaces that entry and is no insertion; every
  other put is one.
\<close>

definition inserting :: "int \<Rightarrow> string list \<Rightarrow> string \<Rightarrow> string list" where
  "inserting C h k = (if k \<in> set (newest C h) then h else h @ [k])"

definition insertions :: "int \<Rightarrow> string list \<Rightarrow> string list" where
  "insertions C ks = foldl (inserting C) [] ks"

text \<open>
  \<open>Client.start(token)\<close> up to the gateway connection: the store is constructed with
  the client's \<open>cache_message_limit\<close>, then the user that \<open>await self.http.fetch_self()\<close>
  returned is added to it. \<open>fetched\<close> is the outcome of that REST call; when it raises,
  \<open>start\<close> raises with the store already assigned. The attributes \<open>http\<close>, \<open>ws\<close> and
  \<open>user\<close> are not part of the model.
\<close>

definition start ::
  "('f, CacheHandler) Client \<Rightarrow> exn + User \<Rightarrow> ('f, CacheHandler) Client \<times> unit outcome" where
  "start self fetched =
     (let c = CacheHandler_init (cache_message_limit self)
      in case fetched of
           Inl e \<Rightarrow> (self\<lparr>cache := Some c\<rparr>, Raised e)
         | Inr u \<Rightarrow> (self\<lparr>cache := Some (put_user c u)\<rparr>, Returned ()))"

section \<open>Example handlers, clients and lookups\<close>

text \<open>
  Callable objects named by strings: awaiting \<open>stall\<close> never completes, \<open>boom\<close>
  raises, every other one returns \<open>None\<close>; none of them touches the client. All are
  truthy but \<open>falsy\<close>, an instance of a class whose \<open>__bool__\<close> returns \<open>False\<close>.
\<close>

definition example_truth :: "string truth" where
  "example_truth func = (func \<noteq> ''falsy'')"

definition example_call :: "(string, unit) calling" where
  "example_call func a self =
     (self, if func = ''stall'' then Stalled
            else if func = ''boom'' then Raised (OtherError ''boom'')
            else Returned PNone)"

text \<open>
  A client with \<open>stall\<close> listening for \<open>Message\<close> and \<open>boom\<close> for \<open>Ready\<close>, and
  \<open>boom\<close> listening for the raw \<open>Message\<close>.
\<close>

definition example_client :: "(string, unit) Client" where
  "example_client =
     registered (registered (registered (Client_init None) ''Message'' None ''stall'')
        ''Ready'' (Some False) ''boom'') ''Message'' (Some True) ''boom''"

definition example_payload :: "(string \<times> pyval) list" where
  "example_payload = [(''type'', PStr ''MESSAGE''), (''content'', PStr ''ping'')]"

definition example_message :: "string \<Rightarrow> MessagePayload" where
  "example_message k =
     \<lparr> msg_id = k, channel = ''general'', author = ''alice'', content = Some k, edited = None \<rparr>"

text \<open>An update of the message \<open>k\<close>: the same identifier, another content.\<close>

definition example_edit :: "string \<Rightarrow> MessagePayload" where
  "example_edit k = (example_message k)\<lparr>content := Some ''edited'', edited := Some ''later''\<rparr>"

definition example_self :: User where
  "example_self = \<lparr> user_id = ''01ARZ3NDEKTSV4RRFFQ69G5FAV'', name = ''bot'' \<rparr>"

text \<open>
  Three cache lookups over a store without content. The first answers every query with
  the query itself, so that the result shows which lookup \<open>get_user\<close> made. The other
  two find nobody: \<open>empty_lookup\<close> raises \<open>ValueError\<close> for a name and returns \<open>None\<close>
  for an identifier, \<open>unknown_lookup\<close> raises \<open>ValueError\<close>, the error that \<open>get_user\<close>
  expects of a miss, for both.
\<close>

definition echo_lookup ::
  "unit \<Rightarrow> string \<Rightarrow> string option \<Rightarrow> exn + (string option \<times> string) option" where
  "echo_lookup c key attr = Inr (Some (attr, key))"



definition started_client :: "(string, unit) Client" where
  "started_client = (Client_init None)\<lparr>cache := Some ()\<rparr>"

section \<open>Case folding and the identifier search\<close>




lemma lower_case_variant: "case_variant (lower s) s"
  unfolding case_variant_def lower_def
  by (induction s) (simp_all add: case_variant_char_def)

lemma search_id_shape: "id_shape s \<Longrightarrow> search s = Some s"
  by (cases s) (auto simp add: id_shape_def)

lemma search_Some:
  "search s = Some m \<Longrightarrow>
     \<exists>pre suf. s = pre @ m @ suf \<and> id_shape m \<and>
       (\<forall>p x q. s = p @ x @ q \<and> id_shape x \<longrightarrow> length pre \<le> length p)"
proof (induction s)
  case Nil
  then show ?case by simp
next
  case (Cons c cs)
  show ?case
  proof (cases "id_shape (take 26 (c # cs))")
    case True
    with Cons.prems have m: "m = take 26 (c # cs)" by simp
    have "c # cs = [] @ m @ drop 26 (c # cs)" unfolding m by simp
    with True m show ?thesis by (metis list.size(3) le0)
  next
    case False
    with Cons.prems have "search cs = Some m" by simp
    from Cons.IH [OF this] obtain pre suf where
      cs: "cs = pre @ m @ suf" and sh: "id_shape m"
      and first: "\<forall>p x q. cs = p @ x @ q \<and> id_shape x \<longrightarrow> length pre \<le> length p"
      by blast
    have "length (c # pre) \<le> length p" if "c # cs = p @ x @ q" and "id_shape x" for p x q
    proof (cases p)
      case Nil
      with that have "take 26 (c # cs) = x" by (simp add: id_shape_def)
      with that False show ?thesis by simp
    next
      case (Cons d p')
      with that have "cs = p' @ x @ q" by simp
      with first that have "length pre \<le> length p'" by blast
      with Cons show ?thesis by simp
    qed
    moreover have "c # cs = (c # pre) @ m @ suf" using cs by simp
    ultimately show ?thesis using sh by blast
  qed
qed

lemma search_finds: "id_shape m \<Longrightarrow> \<exists>m'. search (pre @ m @ suf) = Some m'"
proof (induction pre)
  case Nil
  then have "take 26 (m @ suf) = m" by (simp add: id_shape_def)
  with Nil show ?case by (cases m) (auto simp add: id_shape_def)
next
  case (Cons c pre)
  then show ?case by simp
qed

lemma search_None:
  "search s = None \<longleftrightarrow> (\<forall>p x q. s = p @ x @ q \<longrightarrow> \<not> id_shape x)"
proof
  assume "search s = None"
  then show "\<forall>p x q. s = p @ x @ q \<longrightarrow> \<not> id_shape x"
    using search_finds by (metis option.distinct(1))
next
  assume h: "\<forall>p x q. s = p @ x @ q \<longrightarrow> \<not> id_shape x"
  show "search s = None"
  proof (cases "search s")
    case None then show ?thesis .
  next
    case (Some m)
    from search_Some [OF this] h show ?thesis by blast
  qed
qed

section \<open>Eviction in insertion order\<close>

lemma update_fresh: "k \<notin> fst ` set al \<Longrightarrow> AList.update k v al = al @ [(k, v)]"
  by (induction al) auto

lemma put_message_fresh:
  assumes "msg_id m \<notin> fst ` set (messages c)"
  shows "messages (put_message c m) =
     (if int (length (messages c)) + 1 > message_limit c then tl (messages c @ [(msg_id m, m)])
      else messages c @ [(msg_id m, m)])"
  using assms by (simp add: put_message_def update_fresh Let_def)

lemma put_message_limit: "message_limit (put_message c m) = message_limit c"
  by (simp add: put_message_def Let_def)

lemma put_messages_fifo:
  assumes "distinct (map fst (messages c) @ map msg_id ms)"
    and "length (messages c) \<le> nat (message_limit c)"
  shows "messages (foldl put_message c ms) =
     drop (length (messages c) + length ms - nat (message_limit c))
       (messages c @ map (\<lambda>m. (msg_id m, m)) ms)"
  using assms
proof (induction ms arbitrary: c)
  case Nil
  then show ?case by simp
next
  case (Cons m ms)
  let ?L = "message_limit c"
  let ?X = "messages c @ [(msg_id m, m)]"
  let ?c = "put_message c m"
  have fresh: "msg_id m \<notin> fst ` set (messages c)"
    using Cons.prems(1) by auto
  show ?case
  proof (cases "int (length (messages c)) + 1 > ?L")
    case True
    then have full: "length (messages c) = nat ?L"
      using Cons.prems(2) by linarith
    have eq: "messages ?c = tl ?X"
      using fresh True by (simp add: put_message_fresh)
    have d: "distinct (map fst (messages ?c) @ map msg_id ms)"
      using Cons.prems(1) fresh unfolding eq
      by (cases "messages c") auto
    have len: "length (messages ?c) = nat ?L"
      unfolding eq using full by simp
    have "messages (foldl put_message ?c ms) =
        drop (length (messages ?c) + length ms - nat (message_limit ?c))
          (messages ?c @ map (\<lambda>m. (msg_id m, m)) ms)"
      using Cons.IH [of ?c] d len by (simp add: put_message_limit)
    also have "\<dots> = drop (length ms) (tl ?X @ map (\<lambda>m. (msg_id m, m)) ms)"
      using len eq by (simp add: put_message_limit)
    also have "\<dots> = drop (Suc (length ms)) (?X @ map (\<lambda>m. (msg_id m, m)) ms)"
      by (cases "messages c") simp_all
    finally show ?thesis using full by simp
  next
    case False
    have eq: "messages ?c = ?X"
      using fresh False by (simp add: put_message_fresh)
    have d: "distinct (map fst (messages ?c) @ map msg_id ms)"
      using Cons.prems(1) unfolding eq by auto
    have len: "length (messages ?c) \<le> nat (message_limit ?c)"
      unfolding eq using False by (simp add: put_message_limit)
    show ?thesis
      using Cons.IH [of ?c] d len by (simp add: put_message_limit eq)
  qed
qed

section \<open>The store as a window on the insertions\<close>

lemma length_newest: "length (newest C h) = min (nat C) (length h)"
  by (simp add: newest_def min_def)

lemma newest_snoc:
  "newest C (h @ [k]) =
     (if int (length (newest C h)) + 1 > C then tl (newest C h @ [k]) else newest C h @ [k])"
proof (cases "nat C \<le> length h")
  case True
  show ?thesis
  proof (cases "nat C = 0")
    case True
    then show ?thesis by (simp add: newest_def)
  next
    case False
    with True have "length h - nat C < length h" by simp
    then have ne: "drop (length h - nat C) h \<noteq> []" by simp
    have "Suc (length h) - nat C = Suc (length h - nat C)"
      using True by simp
    then have "newest C (h @ [k]) = drop (Suc (length h - nat C)) h @ [k]"
      using True False by (simp add: newest_def)
    also have "\<dots> = tl (drop (length h - nat C) h) @ [k]"
      by (simp add: drop_Suc tl_drop)
    also have "\<dots> = tl (drop (length h - nat C) h @ [k])"
      using ne by simp
    finally show ?thesis
      using True by (simp add: newest_def)
  qed
next
  case False
  then show ?thesis by (simp add: newest_def)
qed

lemma set_newest: "set (newest C h) \<subseteq> set h"
  unfolding newest_def by (rule set_drop_subset)

lemma insertions_snoc: "insertions C (ks @ [k]) = inserting C (insertions C ks) k"
  by (simp add: insertions_def)

lemma insertions_distinct: "distinct ks \<Longrightarrow> insertions C ks = ks"
proof (induction ks rule: rev_induct)
  case Nil
  then show ?case by (simp add: insertions_def)
next
  case (snoc k ks)
  then have "k \<notin> set (newest C ks)" using set_newest [of C ks] by auto
  with snoc show ?case by (simp add: insertions_snoc inserting_def)
qed

lemma put_message_limit_foldl: "message_limit (foldl put_message c ms) = message_limit c"
  by (induction ms arbitrary: c) (simp_all add: put_message_limit)

lemma length_alist_update:
  "length (AList.update k v al) = (if k \<in> fst ` set al then length al else Suc (length al))"
  by (induction al) auto

lemma put_message_keys:
  "map fst (messages (put_message c m)) =
     (let ks = (if msg_id m \<in> set (map fst (messages c)) then map fst (messages c)
                else map fst (messages c) @ [msg_id m])
      in if int (length ks) > message_limit c then tl ks else ks)"
  by (simp add: put_message_def Let_def update_keys length_alist_update map_tl image_iff)

lemma put_messages_keys:
  assumes "messages c0 = []"
  shows "map fst (messages (foldl put_message c0 ms)) =
           newest (message_limit c0) (insertions (message_limit c0) (map msg_id ms))"
proof (induction ms rule: rev_induct)
  case Nil
  then show ?case using assms by (simp add: insertions_def newest_def)
next
  case (snoc m ms)
  let ?C = "message_limit c0"
  let ?c = "foldl put_message c0 ms"
  let ?h = "insertions ?C (map msg_id ms)"
  have lim: "message_limit ?c = ?C" by (rule put_message_limit_foldl)
  have keys: "map fst (messages ?c) = newest ?C ?h" by (rule snoc.IH)
  show ?case
  proof (cases "msg_id m \<in> set (newest ?C ?h)")
    case True
    then have "newest ?C ?h \<noteq> []" by auto
    then have "0 < length (newest ?C ?h)" by simp
    moreover have "length (newest ?C ?h) \<le> nat ?C"
      by (simp add: length_newest)
    ultimately have "int (length (newest ?C ?h)) \<le> ?C"
      by linarith
    with True show ?thesis
      by (simp add: put_message_keys keys lim insertions_snoc inserting_def Let_def)
  next
    case False
    then show ?thesis
      by (simp add: put_message_keys keys lim insertions_snoc inserting_def Let_def newest_snoc)
  qed
qed

lemma put_message_distinct:
  "distinct (map fst (messages c)) \<Longrightarrow> distinct (map fst (messages (put_message c m)))"
  by (simp add: put_message_def Let_def distinct_update map_tl distinct_tl)

lemma put_messages_distinct:
  "distinct (map fst (messages c)) \<Longrightarrow> distinct (map fst (messages (foldl put_message c ms)))"
  by (induction ms arbitrary: c) (simp_all add: put_message_distinct)

lemma map_of_tl:
  "distinct (map fst xs) \<Longrightarrow> map_of (tl xs) k = Some v \<Longrightarrow> map_of xs k = Some v"
  by (cases xs) (fastforce dest: map_of_SomeD simp add: image_iff)+

lemma put_message_get:
  assumes "distinct (map fst (messages c))"
    and "get_message (put_message c m) k = Some v"
  shows "(k = msg_id m \<and> v = m) \<or> (k \<noteq> msg_id m \<and> get_message c k = Some v)"
proof -
  let ?u = "AList.update (msg_id m) m (messages c)"
  have d: "distinct (map fst ?u)" using assms(1) by (rule distinct_update)
  have "map_of ?u k = Some v"
  proof (cases "int (length ?u) > message_limit c")
    case True
    with assms(2) have "map_of (tl ?u) k = Some v"
      by (simp add: get_message_def put_message_def Let_def)
    with d show ?thesis by (rule map_of_tl)
  next
    case False
    with assms(2) show ?thesis
      by (simp add: get_message_def put_message_def Let_def)
  qed
  then show ?thesis
    by (auto simp add: update_conv' get_message_def split: if_splits)
qed

lemma put_messages_latest:
  assumes "messages c0 = []"
  shows "get_message (foldl put_message c0 ms) k = Some v \<Longrightarrow>
           v = last (filter (\<lambda>m. msg_id m = k) ms)"
proof (induction ms arbitrary: v rule: rev_induct)
  case Nil
  then show ?case using assms by (simp add: get_message_def)
next
  case (snoc m ms)
  have d: "distinct (map fst (messages (foldl put_message c0 ms)))"
    using assms by (simp add: put_messages_distinct)
  from snoc.prems have "get_message (put_message (foldl put_message c0 ms) m) k = Some v"
    by simp
  from put_message_get [OF d this] show ?case
    using snoc.IH by auto
qed

lemma put_message_replace:
  assumes "msg_id m \<in> fst ` set (messages c)"
    and "int (length (messages c)) \<le> message_limit c"
  shows "map fst (messages (put_message c m)) = map fst (messages c)"
    and "get_message (put_message c m) (msg_id m) = Some m"
  using assms
  by (simp_all add: put_message_def Let_def update_keys length_alist_update get_message_def update_conv')

lemma insertions_example:
  "insertions 2 [''m1'', ''m2'', ''m1'', ''m3''] = [''m1'', ''m2'', ''m3'']"
  "newest 2 [''m1'', ''m2'', ''m3''] = [''m2'', ''m3'']"
  by code_simp+

section \<open>Dispatch, case by case\<close>

lemma lower_examples:
  "lower ''Message'' = ''message''" "lower ''MESSAGE'' = ''message''"
  "lower ''message'' = ''message''" "lower ''Ready'' = ''ready''"
  "lower ''READY'' = ''ready''" "lower ''typing'' = ''typing''"
  by code_simp+

lemma example_client_simps:
  "listeners example_client = [''message'' \<mapsto> ''stall'', ''ready'' \<mapsto> ''boom'']"
  "raw_listeners example_client = [''message'' \<mapsto> ''boom'']"
  by (simp_all add: example_client_def registered_def listen_def Client_init_def lower_examples)

lemma example_truth_simps:
  "example_truth ''stall''" "example_truth ''boom''" "example_truth ''pong''"
  "\<not> example_truth ''falsy''"
  by (simp_all add: example_truth_def)

lemma dispatch_Some:
  "listeners self (lower event) = Some func \<Longrightarrow> truth func \<Longrightarrow>
   dispatch truth call self event a =
     \<lparr> invoked = [(func, a)], after = fst (call func a self),
       ended = await_discard (snd (call func a self)) \<rparr>"
  by (simp add: dispatch_def Let_def split_beta)

lemma dispatch_falsy:
  "listeners self (lower event) = Some func \<Longrightarrow> \<not> truth func \<Longrightarrow>
   dispatch truth call self event a = \<lparr> invoked = [], after = self, ended = Returned () \<rparr>"
  by (simp add: dispatch_def Let_def)

lemma dispatch_None:
  "listeners self (lower event) = None \<Longrightarrow>
   dispatch truth call self event a = \<lparr> invoked = [], after = self, ended = Returned () \<rparr>"
  by (simp add: dispatch_def Let_def)

lemma raw_dispatch_Some:
  "map_of payload ''type'' = Some (PStr t) \<Longrightarrow> raw_listeners self (lower t) = Some func \<Longrightarrow>
   truth func \<Longrightarrow>
   raw_dispatch truth call self payload =
     \<lparr> invoked = [(func, ([PDict payload], []))],
       after = fst (call func ([PDict payload], []) self),
       ended = await_discard (snd (call func ([PDict payload], []) self)) \<rparr>"
  by (simp add: raw_dispatch_def Let_def split_beta)


lemma raw_dispatch_None:
  "map_of payload ''type'' = Some (PStr t) \<Longrightarrow> raw_listeners self (lower t) = None \<Longrightarrow>
   raw_dispatch truth call self payload = \<lparr> invoked = [], after = self, ended = Returned () \<rparr>"
  by (simp add: raw_dispatch_def Let_def)

lemma await_discard_simps:
  "await_discard (Returned v) = Returned ()"
  "await_discard (Raised e) = Raised e"
  "await_discard Stalled = Stalled"
  by (simp_all add: await_discard_def)

lemma await_discard_Stalled: "await_discard r = Stalled \<longleftrightarrow> r = Stalled"
  by (cases r) (simp_all add: await_discard_def)

section \<open>The two lookups of \<open>get_user\<close>\<close>

lemma search_examples:
  "search ''<@01ARZ3NDEKTSV4RRFFQ69G5FAV>'' = Some ''01ARZ3NDEKTSV4RRFFQ69G5FAV''"
  "search ''01ARZ3NDEKTSV4RRFFQ69G5FAV'' = Some ''01ARZ3NDEKTSV4RRFFQ69G5FAV''"
  "id_shape ''01ARZ3NDEKTSV4RRFFQ69G5FAV''"
  "\<not> id_shape ''<@01ARZ3NDEKTSV4RRFFQ69G5FAV>''"
  by code_simp+

lemma shorter_has_no_id: "length s < 26 \<Longrightarrow> \<forall>p x q. s = p @ x @ q \<longrightarrow> \<not> id_shape x"
  by (auto simp add: id_shape_def)

lemma substring_at: "u = p @ x @ q \<Longrightarrow> x = take (length x) (drop (length p) u)"
  by simp

lemma get_user_by_id:
  "cache self = Some c \<Longrightarrow> search user = Some m \<Longrightarrow> get_user lookup self user = lookup c m None"
  by (simp add: get_user_def)

lemma get_user_by_name:
  "cache self = Some c \<Longrightarrow> search user = None \<Longrightarrow>
   get_user lookup self user =
     (case lookup c user (Some ''name'') of
        Inl ValueError \<Rightarrow> Inr None | Inl e \<Rightarrow> Inl e | Inr u \<Rightarrow> Inr u)"
  by (simp add: get_user_def)


section \<open>The message cache\<close>

text \<open>
  Claim C1. The capacity of the message cache is the client's \<open>cache_message_limit\<close>,
  5000 unless the constructor is given another, and \<open>start\<close> hands it to the store it
  creates. After every sequence of puts into that store, with identifiers repeated or
  not, the store holds exactly the newest \<open>C\<close> insertions, in the order of insertion, each
  with the payload last put under its identifier; so it holds \<open>C\<close> messages as soon as
  there were \<open>C\<close> insertions. A put under an identifier in the store is a replacement: it
  changes neither the order nor the size, and so does not save the entry from eviction.
  When all identifiers put are different, every put is an insertion and the store holds
  the last \<open>C\<close> messages put. A put of a new message into a full store evicts the entry
  inserted first, which \<open>get\<close> then no longer finds, and keeps the others in order;
  \<open>get\<close> returns no store, so reads change nothing.
\<close>

theorem message_cache_fifo:
  fixes fetched :: "exn + User"
  assumes "cache (fst (start (Client_init limit :: ('f, CacheHandler) Client) fetched)) = Some c0"
    and "distinct (map fst (messages c))"
    and "messages c = old # rest"
    and "int (length (messages c)) = message_limit c"
  shows "cache_message_limit (Client_init limit :: ('f, CacheHandler) Client)
           = (case limit of None \<Rightarrow> 5000 | Some n \<Rightarrow> n) \<and>
         message_limit c0 = cache_message_limit (Client_init limit :: ('f, CacheHandler) Client) \<and>
         map fst (messages (foldl put_message c0 ms)) =
           newest (message_limit c0) (insertions (message_limit c0) (map msg_id ms)) \<and>
         length (messages (foldl put_message c0 ms)) =
           min (nat (message_limit c0)) (length (insertions (message_limit c0) (map msg_id ms))) \<and>
         (\<forall>k v. get_message (foldl put_message c0 ms) k = Some v \<longrightarrow>
            v = last (filter (\<lambda>m. msg_id m = k) ms)) \<and>
         (distinct (map msg_id ms) \<longrightarrow>
            messages (foldl put_message c0 ms) =
              drop (length ms - nat (message_limit c0)) (map (\<lambda>m. (msg_id m, m)) ms)) \<and>
         (msg_id m \<notin> fst ` set (messages c) \<longrightarrow>
            messages (put_message c m) = rest @ [(msg_id m, m)] \<and>
            get_message (put_message c m) (fst old) = None) \<and>
         (msg_id m \<in> fst ` set (messages c) \<longrightarrow>
            map fst (messages (put_message c m)) = map fst (messages c) \<and>
            get_message (put_message c m) (msg_id m) = Some m)"
proof -
  let ?self = "Client_init limit :: ('f, CacheHandler) Client"
  let ?C = "message_limit c0"
  let ?end = "foldl put_message c0 ms"
  have lim: "cache_message_limit ?self = (case limit of None \<Rightarrow> 5000 | Some n \<Rightarrow> n)"
    by (simp add: Client_init_def)
  have c0: "message_limit c0 = cache_message_limit ?self" and empty: "messages c0 = []"
    using assms(1)
    by (auto simp add: start_def Let_def CacheHandler_init_def put_user_def split: sum.splits)
  have keys: "map fst (messages ?end) = newest ?C (insertions ?C (map msg_id ms))"
    using empty by (rule put_messages_keys)
  have "length (map fst (messages ?end)) = min (nat ?C) (length (insertions ?C (map msg_id ms)))"
    unfolding keys by (rule length_newest)
  then have size: "length (messages ?end) = min (nat ?C) (length (insertions ?C (map msg_id ms)))"
    by simp
  have latest: "\<forall>k v. get_message ?end k = Some v \<longrightarrow> v = last (filter (\<lambda>m. msg_id m = k) ms)"
    using put_messages_latest [OF empty] by blast
  have fifo: "messages ?end = drop (length ms - nat ?C) (map (\<lambda>m. (msg_id m, m)) ms)"
    if "distinct (map msg_id ms)"
    using put_messages_fifo [of c0 ms] that empty by simp
  have step: "messages (put_message c m) = rest @ [(msg_id m, m)]"
    and gone: "get_message (put_message c m) (fst old) = None"
    if fresh: "msg_id m \<notin> fst ` set (messages c)"
  proof -
    show s: "messages (put_message c m) = rest @ [(msg_id m, m)]"
      using assms(3,4) fresh by (simp add: put_message_fresh)
    have "fst old \<notin> fst ` set rest" "fst old \<noteq> msg_id m"
      using assms(2,3) fresh by auto
    then show "get_message (put_message c m) (fst old) = None"
      unfolding get_message_def s by (simp add: map_of_eq_None_iff)
  qed
  have repl: "map fst (messages (put_message c m)) = map fst (messages c)"
    and found: "get_message (put_message c m) (msg_id m) = Some m"
    if "msg_id m \<in> fst ` set (messages c)"
    using put_message_replace [OF that] assms(4) by simp_all
  show ?thesis
    using lim c0 keys size latest fifo step gone repl found by blast
qed

text \<open>
  Claim C1, at a client constructed with capacity 2. After the puts of \<open>m1\<close>, \<open>m2\<close>, an
  update of \<open>m1\<close> and \<open>m3\<close>, the store holds \<open>m2\<close> and \<open>m3\<close>: the update did not keep
  \<open>m1\<close>, the first inserted. Of three different messages the last two remain; a put of
  a new message into a store that holds two evicts the first of them, and a put of an
  update leaves the order as it is.
\<close>

theorem message_cache_fifo_witness:
  "cache (fst (start (Client_init (Some 2) :: (string, CacheHandler) Client) (Inr example_self)))
     = Some (put_user (CacheHandler_init 2) example_self) \<and>
   map fst (messages (foldl put_message (put_user (CacheHandler_init 2) example_self)
       [example_message ''m1'', example_message ''m2'', example_edit ''m1'', example_message ''m3'']))
     = [''m2'', ''m3''] \<and>
   length (messages (foldl put_message (put_user (CacheHandler_init 2) example_self)
       [example_message ''m1'', example_message ''m2'', example_edit ''m1'', example_message ''m3'']))
     = 2 \<and>
   distinct (map msg_id [example_message ''m1'', example_message ''m2'', example_message ''m3'']) \<and>
   messages (foldl put_message (put_user (CacheHandler_init 2) example_self)
       [example_message ''m1'', example_message ''m2'', example_message ''m3''])
     = [(''m2'', example_message ''m2''), (''m3'', example_message ''m3'')] \<and>
   messages (put_message
       \<lparr> message_limit = 2, users = [],
         messages = [(''m1'', example_message ''m1''), (''m2'', example_message ''m2'')] \<rparr>
       (example_message ''m3''))
     = [(''m2'', example_message ''m2''), (''m3'', example_message ''m3'')] \<and>
   get_message (put_message
       \<lparr> message_limit = 2, users = [],
         messages = [(''m1'', example_message ''m1''), (''m2'', example_message ''m2'')] \<rparr>
       (example_message ''m3'')) ''m1'' = None \<and>
   map fst (messages (put_message
       \<lparr> message_limit = 2, users = [],
         messages = [(''m1'', example_message ''m1''), (''m2'', example_message ''m2'')] \<rparr>
       (example_edit ''m1''))) = [''m1'', ''m2''] \<and>
   get_message (put_message
       \<lparr> message_limit = 2, users = [],
         messages = [(''m1'', example_message ''m1''), (''m2'', example_message ''m2'')] \<rparr>
       (example_edit ''m1'')) ''m1'' = Some (example_edit ''m1'')"
proof -
  let ?self = "Client_init (Some 2) :: (string, CacheHandler) Client"
  let ?fresh = "put_user (CacheHandler_init 2) example_self"
  let ?full = "\<lparr> message_limit = 2, users = [],
         messages = [(''m1'', example_message ''m1''), (''m2'', example_message ''m2'')] \<rparr>"
  have h1: "cache (fst (start ?self (Inr example_self))) = Some ?fresh"
    by (simp add: start_def Client_init_def Let_def)
  have h2: "distinct (map fst (messages ?full))" by simp
  have h3: "messages ?full = (''m1'', example_message ''m1'') # [(''m2'', example_message ''m2'')]"
    by simp
  have h4: "int (length (messages ?full)) = message_limit ?full" by simp
  have l0: "message_limit ?fresh = 2"
    by (simp add: put_user_def CacheHandler_init_def)
  have ids: "msg_id (example_message k) = k" "msg_id (example_edit k) = k" for k
    by (simp_all add: example_message_def example_edit_def)
  have d: "distinct (map msg_id [example_message ''m1'', example_message ''m2'', example_message ''m3''])"
    by (simp add: ids)
  note t = message_cache_fifo [OF h1 h2 h3 h4]
  note t1 = t [of "[example_message ''m1'', example_message ''m2'', example_edit ''m1'',
                    example_message ''m3'']" "example_message ''m3''"]
  note t2 = t [of "[example_message ''m1'', example_message ''m2'', example_message ''m3'']"
                  "example_edit ''m1''"]
  have a: "map fst (messages (foldl put_message ?fresh
       [example_message ''m1'', example_message ''m2'', example_edit ''m1'', example_message ''m3'']))
     = [''m2'', ''m3'']"
    using t1 by (simp add: l0 ids insertions_example)
  have b: "length (messages (foldl put_message ?fresh
       [example_message ''m1'', example_message ''m2'', example_edit ''m1'', example_message ''m3'']))
     = 2"
    using t1 by (simp add: l0 ids insertions_example)
  have c: "messages (foldl put_message ?fresh
       [example_message ''m1'', example_message ''m2'', example_message ''m3''])
     = [(''m2'', example_message ''m2''), (''m3'', example_message ''m3'')]"
    using t2 d by (simp add: l0 ids)
  have e: "messages (put_message ?full (example_message ''m3''))
     = [(''m2'', example_message ''m2''), (''m3'', example_message ''m3'')]"
    and f: "get_message (put_message ?full (example_message ''m3'')) ''m1'' = None"
    using t1 by (simp_all add: ids)
  have g: "map fst (messages (put_message ?full (example_edit ''m1''))) = [''m1'', ''m2'']"
    and h: "get_message (put_message ?full (example_edit ''m1'')) ''m1'' = Some (example_edit ''m1'')"
    using t2 by (simp_all add: ids)
  show ?thesis
    using h1 a b d c e f g h by (intro conjI)
qed

section \<open>Handlers that stall or raise\<close>

text \<open>
  Claim C2, as stated, fails: \<open>dispatch\<close> awaits the handler inline. With the handler
  \<open>stall\<close> registered for \<open>Message\<close>, the dispatch of a \<open>Message\<close> event calls it and
  never completes.
\<close>

theorem dispatch_stalls_counterexample:
  "invoked (dispatch example_truth example_call example_client ''Message'' ([PStr ''ping''], []))
     = [(''stall'', ([PStr ''ping''], []))] \<and>
   ended (dispatch example_truth example_call example_client ''Message'' ([PStr ''ping''], []))
     = Stalled"
  by (simp add: dispatch_Some example_client_simps lower_examples example_call_def
      example_truth_simps await_discard_simps)

text \<open>
  Claim C2, amended. \<open>dispatch\<close> awaits inline the handler registered for the lower-cased
  event name, when that handler is truthy: the dispatch call never completes exactly when
  there is such a handler, it is truthy and it never returns.
\<close>

theorem dispatch_awaits_handler:
  "ended (dispatch truth call self event a) = Stalled \<longleftrightarrow>
     (\<exists>func. listeners self (lower event) = Some func \<and> truth func \<and>
        snd (call func a self) = Stalled)"
proof (cases "listeners self (lower event)")
  case None
  then show ?thesis by (simp add: dispatch_None)
next
  case (Some func)
  show ?thesis
  proof (cases "truth func")
    case True
    with Some show ?thesis by (simp add: dispatch_Some await_discard_Stalled)
  next
    case False
    with Some show ?thesis by (simp add: dispatch_falsy)
  qed
qed

text \<open>
  Claim C2, amended, at the example client: the dispatch of \<open>READY\<close> (its handler
  raises) and of \<open>typing\<close> (no handler) complete, the dispatch of \<open>message\<close> does not.
\<close>

theorem dispatch_awaits_handler_witness:
  "ended (dispatch example_truth example_call example_client ''READY'' ([], [])) \<noteq> Stalled \<and>
   ended (dispatch example_truth example_call example_client ''typing'' ([], [])) \<noteq> Stalled \<and>
   ended (dispatch example_truth example_call example_client ''message'' ([], [])) = Stalled"
proof -
  have a: "\<not> (\<exists>func. listeners example_client (lower ''READY'') = Some func \<and>
            example_truth func \<and> snd (example_call func ([], []) example_client) = Stalled)"
    by (simp add: example_client_simps lower_examples example_call_def)
  have b: "\<not> (\<exists>func. listeners example_client (lower ''typing'') = Some func \<and>
            example_truth func \<and> snd (example_call func ([], []) example_client) = Stalled)"
    by (simp add: example_client_simps lower_examples)
  have c: "\<exists>func. listeners example_client (lower ''message'') = Some func \<and>
            example_truth func \<and> snd (example_call func ([], []) example_client) = Stalled"
    by (simp add: example_client_simps lower_examples example_call_def example_truth_simps)
  show ?thesis
    using a b c
      dispatch_awaits_handler [where truth = example_truth and call = example_call
        and self = example_client and event = "''READY''" and a = "([], [])"]
      dispatch_awaits_handler [where truth = example_truth and call = example_call
        and self = example_client and event = "''typing''" and a = "([], [])"]
      dispatch_awaits_handler [where truth = example_truth and call = example_call
        and self = example_client and event = "''message''" and a = "([], [])"]
    by blast
qed

text \<open>
  Claim C3, as stated, fails: neither \<open>dispatch\<close> nor \<open>raw_dispatch\<close> catches anything.
  With the handler \<open>boom\<close> registered, the error it raises comes out of the dispatch call.
\<close>

theorem handler_error_propagates_counterexample:
  "ended (dispatch example_truth example_call example_client ''Ready'' ([], []))
     = Raised (OtherError ''boom'') \<and>
   ended (raw_dispatch example_truth example_call example_client example_payload)
     = Raised (OtherError ''boom'')"
proof -
  have "map_of example_payload ''type'' = Some (PStr ''MESSAGE'')"
    by (simp add: example_payload_def)
  then show ?thesis
    by (simp add: dispatch_Some raw_dispatch_Some [where t = "''MESSAGE''"] example_client_simps
        lower_examples example_call_def example_truth_simps await_discard_simps)
qed

text \<open>
  Claim C3, amended. When the handler registered for the event is truthy and raises an
  error, the dispatch call (typed or raw) raises that same error to its caller, having
  made that one call and leaving the client as the handler left it.
\<close>

theorem handler_error_propagates:
  "(listeners self (lower event) = Some func \<and> truth func \<and>
    snd (call func a self) = Raised e \<longrightarrow>
      ended (dispatch truth call self event a) = Raised e \<and>
      invoked (dispatch truth call self event a) = [(func, a)] \<and>
      after (dispatch truth call self event a) = fst (call func a self)) \<and>
   (map_of payload ''type'' = Some (PStr t) \<and> raw_listeners self (lower t) = Some func \<and>
    truth func \<and> snd (call func ([PDict payload], []) self) = Raised e \<longrightarrow>
      ended (raw_dispatch truth call self payload) = Raised e \<and>
      invoked (raw_dispatch truth call self payload) = [(func, ([PDict payload], []))] \<and>
      after (raw_dispatch truth call self payload) = fst (call func ([PDict payload], []) self))"
  by (simp add: dispatch_Some raw_dispatch_Some await_discard_simps)

text \<open>
  Claim C3, amended, at the example client, for the typed event \<open>READY\<close> and for a raw
  envelope of type \<open>MESSAGE\<close>.
\<close>

theorem handler_error_propagates_witness:
  "listeners example_client (lower ''READY'') = Some ''boom'' \<and>
   example_truth ''boom'' \<and>
   snd (example_call ''boom'' ([], []) example_client) = Raised (OtherError ''boom'') \<and>
   ended (dispatch example_truth example_call example_client ''READY'' ([], []))
     = Raised (OtherError ''boom'') \<and>
   map_of example_payload ''type'' = Some (PStr ''MESSAGE'') \<and>
   raw_listeners example_client (lower ''MESSAGE'') = Some ''boom'' \<and>
   snd (example_call ''boom'' ([PDict example_payload], []) example_client)
     = Raised (OtherError ''boom'') \<and>
   ended (raw_dispatch example_truth example_call example_client example_payload)
     = Raised (OtherError ''boom'')"
proof -
  have h1: "listeners example_client (lower ''READY'') = Some ''boom''"
    by (simp add: example_client_simps lower_examples)
  have h2: "snd (example_call ''boom'' x example_client) = Raised (OtherError ''boom'')" for x
    by (simp add: example_call_def)
  have h3: "map_of example_payload ''type'' = Some (PStr ''MESSAGE'')"
    by (simp add: example_payload_def)
  have h4: "raw_listeners example_client (lower ''MESSAGE'') = Some ''boom''"
    by (simp add: example_client_simps lower_examples)
  have h5: "example_truth ''boom''" by (rule example_truth_simps)
  show ?thesis
    using h1 h2 h3 h4 h5
      handler_error_propagates [where self = example_client and event = "''READY''"
        and func = "''boom''" and truth = example_truth and call = example_call
        and a = "([], [])" and e = "OtherError ''boom''" and payload = example_payload
        and t = "''MESSAGE''"]
    by blast
qed

section \<open>The registries\<close>







text \<open>
  Claim C8. When the registry has no handler under the lower-cased event name, the
  dispatch (typed, or raw for an envelope whose \<open>type\<close> is that name) calls nothing,
  returns normally and leaves the client, with both registries, as it was.
\<close>

theorem unregistered_event_is_ignored:
  "(listeners self (lower event) = None \<longrightarrow>
      dispatch truth call self event a = \<lparr> invoked = [], after = self, ended = Returned () \<rparr>) \<and>
   (map_of payload ''type'' = Some (PStr event) \<and> raw_listeners self (lower event) = None \<longrightarrow>
      raw_dispatch truth call self payload =
        \<lparr> invoked = [], after = self, ended = Returned () \<rparr>)"
  by (simp add: dispatch_None raw_dispatch_None)

text \<open>
  Claim C8, at the example client: nothing listens for \<open>typing\<close>, and nothing listens
  for the raw \<open>Ready\<close>.
\<close>

theorem unregistered_event_is_ignored_witness:
  "listeners example_client (lower ''typing'') = None \<and>
   dispatch example_truth example_call example_client ''typing'' ([], [])
     = \<lparr> invoked = [], after = example_client, ended = Returned () \<rparr> \<and>
   map_of [(''type'', PStr ''Ready'')] ''type'' = Some (PStr ''Ready'') \<and>
   raw_listeners example_client (lower ''Ready'') = None \<and>
   raw_dispatch example_truth example_call example_client [(''type'', PStr ''Ready'')]
     = \<lparr> invoked = [], after = example_client, ended = Returned () \<rparr>"
proof -
  have h1: "listeners example_client (lower ''typing'') = None"
    by (simp add: example_client_simps lower_examples)
  have h2: "map_of [(''type'', PStr ''Ready'')] ''type'' = Some (PStr ''Ready'')" by simp
  have h3: "raw_listeners example_client (lower ''Ready'') = None"
    by (simp add: example_client_simps lower_examples)
  note t = unregistered_event_is_ignored [where self = example_client and truth = example_truth
      and call = example_call and a = "([], [])" and payload = "[(''type'', PStr ''Ready'')]"]
  show ?thesis
    using h1 h2 h3 t [where event = "''typing''"] t [where event = "''Ready''"]
    by blast
qed

text \<open>
  Claim C9. \<open>raw_dispatch\<close> raises on an envelope without the key \<open>type\<close>
  (\<open>KeyError\<close>) and on one whose \<open>type\<close> is not a string (\<open>AttributeError\<close>), before
  it looks at the registry: no handler is called and the client is unchanged.
\<close>

theorem raw_dispatch_needs_type:
  "(map_of payload ''type'' = None \<longrightarrow>
      raw_dispatch truth call self payload =
        \<lparr> invoked = [], after = self, ended = Raised (KeyError ''type'') \<rparr>) \<and>
   (map_of payload ''type'' = Some v \<and> (\<forall>t. v \<noteq> PStr t) \<longrightarrow>
      raw_dispatch truth call self payload =
        \<lparr> invoked = [], after = self, ended = Raised (AttributeError ''lower'') \<rparr>)"
  by (cases v) (simp_all add: raw_dispatch_def)

text \<open>
  Claim C9, for an envelope with only a \<open>content\<close> and for one whose \<open>type\<close> is the
  number 7.
\<close>

theorem raw_dispatch_needs_type_witness:
  "map_of [(''content'', PStr ''ping'')] ''type'' = None \<and>
   raw_dispatch example_truth example_call example_client [(''content'', PStr ''ping'')]
     = \<lparr> invoked = [], after = example_client, ended = Raised (KeyError ''type'') \<rparr> \<and>
   map_of [(''type'', PInt 7)] ''type'' = Some (PInt 7) \<and>
   raw_dispatch example_truth example_call example_client [(''type'', PInt 7)]
     = \<lparr> invoked = [], after = example_client, ended = Raised (AttributeError ''lower'') \<rparr>"
proof -
  have h1: "map_of [(''content'', PStr ''ping'')] ''type'' = None" by simp
  have h2: "map_of [(''type'', PInt 7)] ''type'' = Some (PInt 7)" by simp
  have h3: "\<forall>t. PInt 7 \<noteq> PStr t" by simp
  note t = raw_dispatch_needs_type [where truth = example_truth and call = example_call
      and self = example_client]
  show ?thesis
    using h1 h2 h3
      t [where payload = "[(''content'', PStr ''ping'')]" and v = PNone]
      t [where payload = "[(''type'', PInt 7)]" and v = "PInt 7"]
    by blast
qed

section \<open>Resolving a user\<close>

text \<open>
  Claim C4, as stated, fails: a mention is not of the identifier shape, and yet
  \<open>get_user\<close> does not look it up as a name. It looks up, as an identifier, the 26
  characters that the mention wraps.
\<close>

theorem get_user_mention_counterexample:
  "\<not> id_shape ''<@01ARZ3NDEKTSV4RRFFQ69G5FAV>'' \<and>
   get_user echo_lookup started_client ''<@01ARZ3NDEKTSV4RRFFQ69G5FAV>''
     = Inr (Some (None, ''01ARZ3NDEKTSV4RRFFQ69G5FAV'')) \<and>
   echo_lookup () ''<@01ARZ3NDEKTSV4RRFFQ69G5FAV>'' (Some ''name'')
     = Inr (Some (Some ''name'', ''<@01ARZ3NDEKTSV4RRFFQ69G5FAV>''))"
proof -
  have h: "cache started_client = Some ()" by (simp add: started_client_def)
  have "get_user echo_lookup started_client ''<@01ARZ3NDEKTSV4RRFFQ69G5FAV>''
      = echo_lookup () ''01ARZ3NDEKTSV4RRFFQ69G5FAV'' None"
    using h search_examples(1) by (rule get_user_by_id)
  then show ?thesis
    by (simp add: search_examples echo_lookup_def)
qed

text \<open>
  Claim C4, amended. Once \<open>start\<close> has set the cache: an input of the identifier shape
  is resolved by the identifier lookup, with the input itself; an input that contains no
  26 consecutive characters of the identifier alphabet is resolved by the name lookup,
  where a \<open>ValueError\<close> of the lookup becomes \<open>None\<close>.
\<close>

theorem get_user_routes:
  assumes "cache self = Some c"
  shows "(id_shape user \<longrightarrow> get_user lookup self user = lookup c user None) \<and>
         ((\<forall>p x q. user = p @ x @ q \<longrightarrow> \<not> id_shape x) \<longrightarrow>
            get_user lookup self user =
              (case lookup c user (Some ''name'') of
                 Inl ValueError \<Rightarrow> Inr None | Inl e \<Rightarrow> Inl e | Inr u \<Rightarrow> Inr u))"
proof (intro conjI impI)
  assume "id_shape user"
  then have "search user = Some user" by (rule search_id_shape)
  with assms show "get_user lookup self user = lookup c user None"
    by (rule get_user_by_id)
next
  assume "\<forall>p x q. user = p @ x @ q \<longrightarrow> \<not> id_shape x"
  then have "search user = None" by (simp add: search_None)
  with assms show "get_user lookup self user =
      (case lookup c user (Some ''name'') of
         Inl ValueError \<Rightarrow> Inr None | Inl e \<Rightarrow> Inl e | Inr u \<Rightarrow> Inr u)"
    by (rule get_user_by_name)
qed

text \<open>
  Claim C4, amended, for an identifier and for the name \<open>alice\<close>; the echoing lookup
  shows the query that was made.
\<close>

theorem get_user_routes_witness:
  "cache started_client = Some () \<and>
   id_shape ''01ARZ3NDEKTSV4RRFFQ69G5FAV'' \<and>
   get_user echo_lookup started_client ''01ARZ3NDEKTSV4RRFFQ69G5FAV''
     = Inr (Some (None, ''01ARZ3NDEKTSV4RRFFQ69G5FAV'')) \<and>
   length ''alice'' < 26 \<and>
   get_user echo_lookup started_client ''alice'' = Inr (Some (Some ''name'', ''alice''))"
proof -
  have h1: "cache started_client = Some ()" by (simp add: started_client_def)
  have h2: "id_shape ''01ARZ3NDEKTSV4RRFFQ69G5FAV''" by (rule search_examples)
  have h3: "\<forall>p x q. ''alice'' = p @ x @ q \<longrightarrow> \<not> id_shape x"
    by (rule shorter_has_no_id) simp
  have a: "get_user echo_lookup started_client ''01ARZ3NDEKTSV4RRFFQ69G5FAV''
     = Inr (Some (None, ''01ARZ3NDEKTSV4RRFFQ69G5FAV''))"
    using h2 get_user_routes [OF h1, of "''01ARZ3NDEKTSV4RRFFQ69G5FAV''" echo_lookup]
    by (simp add: echo_lookup_def)
  have b: "get_user echo_lookup started_client ''alice'' = Inr (Some (Some ''name'', ''alice''))"
    using h3 get_user_routes [OF h1, of "''alice''" echo_lookup]
    by (simp add: echo_lookup_def)
  have l: "length ''alice'' < 26" by simp
  show ?thesis using h1 h2 l a b by blast
qed




text \<open>
  Claim C10. \<open>get_user\<close> searches the input for the identifier: when the input contains,
  anywhere, 26 consecutive characters of the identifier alphabet, the result is that of
  the identifier lookup for the first such substring (no other one starts further left),
  and the name lookup is not made.
\<close>

theorem get_user_searches_for_id:
  assumes "cache self = Some c"
    and "user = pre @ m @ suf"
    and "id_shape m"
  shows "\<exists>pre' m' suf'.
           user = pre' @ m' @ suf' \<and> id_shape m' \<and>
           (\<forall>p x q. user = p @ x @ q \<and> id_shape x \<longrightarrow> length pre' \<le> length p) \<and>
           get_user lookup self user = lookup c m' None"
proof -
  from search_finds [OF assms(3), of pre suf] assms(2)
  obtain m' where s: "search user = Some m'" by auto
  from search_Some [OF s] obtain pre' suf' where
    "user = pre' @ m' @ suf'" "id_shape m'"
    "\<forall>p x q. user = p @ x @ q \<and> id_shape x \<longrightarrow> length pre' \<le> length p"
    by blast
  moreover have "get_user lookup self user = lookup c m' None"
    using assms(1) s by (rule get_user_by_id)
  ultimately show ?thesis by blast
qed

text \<open>
  Claim C10, for a mention that wraps an identifier: the lookup is made with the
  identifier inside the mention.
\<close>

theorem get_user_searches_for_id_witness:
  "cache started_client = Some () \<and>
   ''<@01ARZ3NDEKTSV4RRFFQ69G5FAV>'' = ''<@'' @ ''01ARZ3NDEKTSV4RRFFQ69G5FAV'' @ ''>'' \<and>
   id_shape ''01ARZ3NDEKTSV4RRFFQ69G5FAV'' \<and>
   get_user echo_lookup started_client ''<@01ARZ3NDEKTSV4RRFFQ69G5FAV>''
     = Inr (Some (None, ''01ARZ3NDEKTSV4RRFFQ69G5FAV''))"
proof -
  define u where "u = ''<@01ARZ3NDEKTSV4RRFFQ69G5FAV>''"
  define i where "i = ''01ARZ3NDEKTSV4RRFFQ69G5FAV''"
  have h1: "cache started_client = Some ()" by (simp add: started_client_def)
  have h2: "u = ''<@'' @ i @ ''>''"
    by (simp add: u_def i_def)
  have h3: "id_shape i" unfolding i_def by (rule search_examples)
  note t = get_user_searches_for_id [OF h1 h2 h3, of echo_lookup]
  from t obtain pre' m' suf' where
    split: "u = pre' @ m' @ suf'" and shape: "id_shape m'"
    and first: "\<forall>p x q. u = p @ x @ q \<and> id_shape x \<longrightarrow> length pre' \<le> length p"
    and res: "get_user echo_lookup started_client u = echo_lookup () m' None"
    by (elim exE conjE)
  have "length pre' \<le> length ''<@''"
    using first [rule_format, OF conjI [OF h2 h3]] .
  then have le: "length pre' \<le> 2" by simp
  have len: "length m' = 26" using shape by (simp add: id_shape_def)
  have m': "m' = take 26 (drop (length pre') u)"
    using substring_at [OF split] len by simp
  have n0: "\<not> id_shape (take 26 (drop 0 u))" unfolding u_def by code_simp
  have n1: "\<not> id_shape (take 26 (drop 1 u))" unfolding u_def by code_simp
  have n2: "take 26 (drop 2 u) = i" unfolding u_def i_def by simp
  have "length pre' = 0 \<or> length pre' = 1 \<or> length pre' = 2"
    using le by linarith
  then have "m' = i"
  proof (elim disjE)
    assume a: "length pre' = 0"
    have "m' = take 26 (drop 0 u)" using m' unfolding a .
    with shape n0 show ?thesis by simp
  next
    assume a: "length pre' = 1"
    have "m' = take 26 (drop 1 u)" using m' unfolding a .
    with shape n1 show ?thesis by simp
  next
    assume a: "length pre' = 2"
    have "m' = take 26 (drop 2 u)" using m' unfolding a .
    with n2 show ?thesis by simp
  qed
  with res have r: "get_user echo_lookup started_client u = Inr (Some (None, i))"
    by (simp add: echo_lookup_def)
  show ?thesis
    using h1 h2 h3 r unfolding u_def i_def by (intro conjI)
qed

end
